theory Spec2Isabelle
  imports Complex_Main
begin

section \<open>Fixed-point decimals: \<open>parseDecimal\<close>\<close>

text \<open>
  The attestation script (\<^verbatim>\<open>ethers\<close>, \<^verbatim>\<open>axios\<close>) converts the decimal strings of the
  scoring service into integers scaled by \<open>10 ^ SCORE_DECIMALS\<close>.  Strings are lists of
  8-bit characters; a thrown exception is a value of type \<open>error\<close>.
\<close>

datatype error =
    MalformedDecimal
  | NumericFault
  | InvalidDate
  | InvalidBigInt
  | InvalidArgument
  | Thrown string
  | ThrownValue

definition SCORE_DECIMALS :: nat where
  "SCORE_DECIMALS = 4"

text \<open>The regular-expression class \<^verbatim>\<open>\d\<close> (without the unicode flag): \<^verbatim>\<open>[0-9]\<close>.\<close>

definition isDigit :: "char \<Rightarrow> bool" where
  "isDigit c = (48 \<le> (of_char c :: nat) \<and> (of_char c :: nat) \<le> 57)"

text \<open>\<^verbatim>\<open>BigInt\<close> of a string of decimal digits.\<close>

definition digitsValue :: "string \<Rightarrow> nat" where
  "digitsValue ds = foldl (\<lambda>acc c. 10 * acc + (of_char c - 48)) 0 ds"

text \<open>
  \<^verbatim>\<open>decimalStr.replace(new RegExp(String.raw`(?<=\.\d{${SCORE_DECIMALS}})\d+`), "")\<close>:
  the expression has no \<^verbatim>\<open>g\<close> flag, so only the leftmost match is replaced.  A match
  starts at the first position preceded by a point and \<open>SCORE_DECIMALS\<close> digits and holding
  one more digit, that is, right after the first point that is followed by more than
  \<open>SCORE_DECIMALS\<close> digits; being greedy, it takes the whole run of digits from there on.
\<close>

fun truncateDecimals :: "string \<Rightarrow> string" where
  "truncateDecimals [] = []"
| "truncateDecimals (c # cs) =
     (if c = CHR ''.'' \<and> SCORE_DECIMALS < length (takeWhile isDigit cs)
      then c # take SCORE_DECIMALS cs @ dropWhile isDigit (drop SCORE_DECIMALS cs)
      else c # truncateDecimals cs)"

text \<open>
  Modelled from the spec: \<^verbatim>\<open>ethers.parseUnits\<close> is a function of the ethers library,
  whose code is not part of the repository's sources.  Section 4.1 of the specification
  gives its contract: the input is a base-10 string with an optional sign and at most one
  decimal point, without exponent; the result is the exact integer \<open>value * 10 ^ decimals\<close>,
  computed on the digits and not through a floating-point number; any other string fails
  with \<open>MalformedDecimal\<close>.  The library reads the string as
  \<^verbatim>\<open>^(-?)([0-9]*)\.?([0-9]*)$\<close> with at least one digit, pads the fraction with zeros up to
  \<open>decimals\<close> digits, and refuses (a numeric fault) a fraction that has a non-zero digit
  beyond them.  The result is an unbounded integer: the model puts no limit on its size.
\<close>

definition parseUnits :: "string \<Rightarrow> nat \<Rightarrow> error + int" where
  "parseUnits v decimals =
     (let negative = (v \<noteq> [] \<and> hd v = CHR ''-'');
          r0 = (if negative then tl v else v);
          whole = takeWhile isDigit r0;
          r1 = dropWhile isDigit r0;
          r2 = (if r1 \<noteq> [] \<and> hd r1 = CHR ''.'' then tl r1 else r1);
          decimal = takeWhile isDigit r2;
          r3 = dropWhile isDigit r2
      in if r3 \<noteq> [] \<or> (whole = [] \<and> decimal = []) then Inl MalformedDecimal
         else if \<not> list_all (\<lambda>c. c = CHR ''0'') (drop decimals decimal) then Inl NumericFault
         else let padded = take decimals (decimal @ replicate (decimals - length decimal) (CHR ''0''));
                  magnitude = int (digitsValue (whole @ padded))
              in Inr (if negative then - magnitude else magnitude))"

text \<open>
  \<^verbatim>\<open>const parseDecimal = (decimalStr: string): bigint => { const truncated = ...;
  return ethers.parseUnits(truncated, SCORE_DECIMALS); }\<close>
\<close>

definition parseDecimal :: "string \<Rightarrow> error + int" where
  "parseDecimal decimalStr = parseUnits (truncateDecimals decimalStr) SCORE_DECIMALS"


section \<open>The stamp filter: \<open>parseFloat(score) > 0\<close>\<close>

text \<open>
  The stamp filter of \<^verbatim>\<open>createAttestationData\<close> reads a score with JavaScript's
  \<^verbatim>\<open>parseFloat\<close> and compares the number with zero.  \<^verbatim>\<open>parseFloat\<close> skips leading white
  space and reads the longest prefix that is a decimal literal: an optional sign, then
  \<^verbatim>\<open>Infinity\<close> or digits with an optional fraction and an optional exponent; it yields
  \<^verbatim>\<open>NaN\<close> when there is no such prefix.  A finite result is kept here as the exact
  value \<open>\<plusminus> m * 10 ^ e\<close> read from the text, before it is rounded to a double.
\<close>

datatype jsNumber = NaN | Infinity bool | Decimal bool nat int

definition isWhiteSpace :: "char \<Rightarrow> bool" where
  "isWhiteSpace c = ((of_char c :: nat) \<in> {9, 10, 11, 12, 13, 32, 160})"

definition exponentPart :: "string \<Rightarrow> int" where
  "exponentPart r =
     (if r \<noteq> [] \<and> (hd r = CHR ''e'' \<or> hd r = CHR ''E'')
      then (let r1 = tl r;
                negative = (r1 \<noteq> [] \<and> hd r1 = CHR ''-'');
                r2 = (if r1 \<noteq> [] \<and> (hd r1 = CHR ''-'' \<or> hd r1 = CHR ''+'') then tl r1 else r1);
                ds = takeWhile isDigit r2
            in if ds = [] then 0
               else if negative then - int (digitsValue ds) else int (digitsValue ds))
      else 0)"

definition parseFloat :: "string \<Rightarrow> jsNumber" where
  "parseFloat s =
     (let t = dropWhile isWhiteSpace s;
          negative = (t \<noteq> [] \<and> hd t = CHR ''-'');
          u = (if t \<noteq> [] \<and> (hd t = CHR ''-'' \<or> hd t = CHR ''+'') then tl t else t);
          whole = takeWhile isDigit u;
          r1 = dropWhile isDigit u;
          hasPoint = (r1 \<noteq> [] \<and> hd r1 = CHR ''.'');
          frac = (if hasPoint then takeWhile isDigit (tl r1) else []);
          r2 = (if hasPoint then dropWhile isDigit (tl r1) else r1)
      in if take 8 u = ''Infinity'' then Infinity negative
         else if whole = [] \<and> frac = [] then NaN
         else Decimal negative (digitsValue (whole @ frac)) (exponentPart r2 - int (length frac)))"

text \<open>
  \<^verbatim>\<open>x > 0\<close> on the number read.  A double is positive exactly when the value read is
  above \<open>2 ^ - 1075\<close>, half of the smallest positive double: rounding is to nearest, and
  the tie goes to zero.  \<^verbatim>\<open>NaN > 0\<close> is false.
\<close>

fun greaterThanZero :: "jsNumber \<Rightarrow> bool" where
  "greaterThanZero NaN = False"
| "greaterThanZero (Infinity negative) = (\<not> negative)"
| "greaterThanZero (Decimal negative m e) =
     (\<not> negative \<and> (if 0 \<le> e then 0 < m else 10 ^ nat (- e) < m * 2 ^ 1075))"

section \<open>Score records and attestation requests\<close>

text \<open>
  \<^verbatim>\<open>V2ScoreResponseData\<close>; \<^verbatim>\<open>stamps\<close> is kept in the order of \<^verbatim>\<open>Object.entries\<close>,
  and the \<^verbatim>\<open>score\<close> of a stamp is \<open>stamp_score\<close>.  An optional field that is absent
  (or \<^verbatim>\<open>null\<close>) is \<open>None\<close>.
\<close>

record StampData =
  stamp_score :: string
  dedup :: bool
  expiration_date :: "string option"

record V2ScoreResponseData =
  address :: string
  score :: string
  threshold :: string
  passing_score :: bool
  last_score_timestamp :: string
  expiration_timestamp :: string
  error :: "string option"
  stamps :: "(string \<times> StampData) list"

text \<open>
  The values handed to \<^verbatim>\<open>abiCoder.encode\<close> by \<^verbatim>\<open>encodeScoreData\<close>.  In the request
  records below, the field \<^verbatim>\<open>data\<close> of the attestation is \<open>payload\<close>, its field
  \<^verbatim>\<open>value\<close> is \<open>transfer\<close>, and the field \<^verbatim>\<open>data\<close> of the multi-request is
  \<open>requests\<close>.
\<close>

record ScoreTuple =
  enc_passing_score :: bool
  enc_score_decimals :: int
  enc_scorer_id :: int
  enc_score :: int
  enc_threshold :: int
  enc_stamps :: "(string \<times> int) list"

record AttestationRequestData =
  recipient :: string
  expirationTime :: int
  revocable :: bool
  refUID :: string
  payload :: string
  transfer :: int

record MultiAttestationRequest =
  schema :: string
  requests :: "AttestationRequestData list"

text \<open>What the run does to the outside world, in order.\<close>

datatype event =
    ScoreRequested string
  | Submitted "MultiAttestationRequest list"
  | Slept nat

text \<open>
  The collaborators that are not code of the script: the configuration read from the
  environment, the JavaScript runtime (\<^verbatim>\<open>new Date(s).getTime()\<close>, with \<open>None\<close> for
  \<^verbatim>\<open>NaN\<close>; \<^verbatim>\<open>BigInt(s)\<close>, with \<open>None\<close> for a syntax error), the ABI coder, the HTTP
  client and the attester contract (\<^verbatim>\<open>submitAttestations\<close> followed by
  \<^verbatim>\<open>tx.wait()\<close>, yielding the transaction hash).  The network answers may depend on
  everything that happened before.
\<close>

record Env =
  SCORER_ENDPOINT :: string
  SCHEMA_UID :: string
  dateGetTime :: "string \<Rightarrow> int option"
  toBigInt :: "string \<Rightarrow> int option"
  abiEncode :: "ScoreTuple \<Rightarrow> error + string"
  axiosGet :: "event list \<Rightarrow> string \<Rightarrow> error + V2ScoreResponseData"
  submitAttestations :: "event list \<Rightarrow> MultiAttestationRequest list \<Rightarrow> error + string"

text \<open>
  An element of \<^verbatim>\<open>results\<close>: \<^verbatim>\<open>{ address, score, txHash?, error? }\<close>, with
  \<open>result_address\<close>, \<open>result_score\<close> and \<open>result_error\<close> for \<^verbatim>\<open>address\<close>,
  \<^verbatim>\<open>score\<close> and \<^verbatim>\<open>error\<close>.
\<close>

record AttestationResult =
  result_address :: string
  result_score :: string
  txHash :: "string option"
  result_error :: "string option"

definition ZERO_BYTES32 :: string where
  "ZERO_BYTES32 = ''0x0000000000000000000000000000000000000000000000000000000000000000''"

definition batchSize :: nat where
  "batchSize = 5"

text \<open>
  \<^verbatim>\<open>error instanceof Error ? error.message : "Unknown error"\<close>.  The texts of the
  errors raised by the libraries and the runtime are abbreviated.
\<close>

fun errorMessage :: "error \<Rightarrow> string" where
  "errorMessage (Thrown m) = m"
| "errorMessage ThrownValue = ''Unknown error''"
| "errorMessage MalformedDecimal = ''invalid FixedNumber string value''"
| "errorMessage NumericFault = ''too many decimals for format''"
| "errorMessage InvalidDate = ''The number NaN cannot be converted to a BigInt''"
| "errorMessage InvalidBigInt = ''Cannot convert to a BigInt''"
| "errorMessage InvalidArgument = ''cannot encode object for signature with missing names''"

text \<open>
  \<^verbatim>\<open>encodeScoreData\<close> calls \<^verbatim>\<open>abiCoder.encode\<close> with the types
  \<^verbatim>\<open>["bool", "uint8", "uint128", "uint32", "uint32", "tuple(string,uint256)[]"]\<close>.
  The coder is library code.  The script hands it every stamp as an object
  \<^verbatim>\<open>{ provider, score }\<close>, while the components of \<^verbatim>\<open>tuple(string,uint256)\<close> have no
  names: the coder takes an object only for a tuple whose components are named, and
  raises an invalid-argument error for this one.  So the call raises as soon as there is
  a stamp to encode; an empty array has no element to refuse and reaches the coder.
\<close>

definition encodeScoreData ::
  "Env \<Rightarrow> bool \<Rightarrow> int \<Rightarrow> int \<Rightarrow> int \<Rightarrow> int \<Rightarrow> (string \<times> int) list \<Rightarrow> error + string" where
  "encodeScoreData env passing score_decimals scorer_id sc th sts =
     (if sts \<noteq> [] then Inl InvalidArgument
      else abiEncode env \<lparr>enc_passing_score = passing, enc_score_decimals = score_decimals,
             enc_scorer_id = scorer_id, enc_score = sc, enc_threshold = th, enc_stamps = sts\<rparr>)"

definition requestV2Score ::
  "Env \<Rightarrow> event list \<Rightarrow> string \<Rightarrow> string \<Rightarrow> (error + V2ScoreResponseData) \<times> event list" where
  "requestV2Score env trace addr scorerId =
     (axiosGet env trace (SCORER_ENDPOINT env @ ''/internal/score/v2/'' @ scorerId @ ''/'' @ addr),
      trace @ [ScoreRequested addr])"

text \<open>\<^verbatim>\<open>.filter(([_, { dedup, score }]) => parseFloat(score) > 0 && !dedup)\<close>\<close>

definition keepStamp :: "string \<times> StampData \<Rightarrow> bool" where
  "keepStamp entry = (greaterThanZero (parseFloat (stamp_score (snd entry))) \<and> \<not> dedup (snd entry))"

text \<open>
  \<^verbatim>\<open>.map(([provider, { score }]) => ({ provider, score: parseDecimal(score) }))\<close>: the
  first score that \<^verbatim>\<open>parseDecimal\<close> refuses ends the whole map with its error.
\<close>

fun scaleStamps :: "(string \<times> StampData) list \<Rightarrow> error + (string \<times> int) list" where
  "scaleStamps [] = Inr []"
| "scaleStamps (entry # rest) =
     (case parseDecimal (stamp_score (snd entry)) of
        Inl e \<Rightarrow> Inl e
      | Inr v \<Rightarrow> (case scaleStamps rest of
                   Inl e \<Rightarrow> Inl e
                 | Inr vs \<Rightarrow> Inr ((fst entry, v) # vs)))"

text \<open>
  \<^verbatim>\<open>createAttestationData\<close>, in the order of evaluation of the script: the expiration
  time (\<^verbatim>\<open>BigInt\<close> throws on \<^verbatim>\<open>NaN\<close>), the stamps, then the arguments of
  \<^verbatim>\<open>encodeScoreData\<close> from left to right, then the encoding.  The first failure is the
  exception of the call.
\<close>

definition createAttestationData ::
  "Env \<Rightarrow> string \<Rightarrow> V2ScoreResponseData \<Rightarrow> string \<Rightarrow> error + AttestationRequestData" where
  "createAttestationData env addr scoreData scorerId =
     (case dateGetTime env (expiration_timestamp scoreData) of
        None \<Rightarrow> Inl InvalidDate
      | Some ms \<Rightarrow>
     (case scaleStamps (filter keepStamp (stamps scoreData)) of
        Inl e \<Rightarrow> Inl e
      | Inr sts \<Rightarrow>
     (case toBigInt env scorerId of
        None \<Rightarrow> Inl InvalidBigInt
      | Some scorer_id \<Rightarrow>
     (case parseDecimal (score scoreData) of
        Inl e \<Rightarrow> Inl e
      | Inr sc \<Rightarrow>
     (case parseDecimal (threshold scoreData) of
        Inl e \<Rightarrow> Inl e
      | Inr th \<Rightarrow>
     (case encodeScoreData env (passing_score scoreData) (int SCORE_DECIMALS) scorer_id sc th sts of
        Inl e \<Rightarrow> Inl e
      | Inr encodedData \<Rightarrow>
          Inr \<lparr>recipient = addr, expirationTime = ms div 1000, revocable = True,
               refUID = ZERO_BYTES32, payload = encodedData, transfer = 0\<rparr>))))))"

text \<open>
  \<^verbatim>\<open>writeScoreOnchain\<close>: its \<^verbatim>\<open>catch\<close> logs and throws the same error again.  One
  multi-request with one entry is sent.
\<close>

definition writeScoreOnchain ::
  "Env \<Rightarrow> event list \<Rightarrow> string \<Rightarrow> V2ScoreResponseData \<Rightarrow> string \<Rightarrow> (error + string) \<times> event list" where
  "writeScoreOnchain env trace addr scoreData scorerId =
     (case createAttestationData env addr scoreData scorerId of
        Inl e \<Rightarrow> (Inl e, trace)
      | Inr attestationData \<Rightarrow>
          (let multiAttestationRequest = [\<lparr>schema = SCHEMA_UID env, requests = [attestationData]\<rparr>]
           in (submitAttestations env trace multiAttestationRequest,
               trace @ [Submitted multiAttestationRequest])))"

text \<open>\<^verbatim>\<open>if (scoreData.error)\<close>: an absent field and the empty string are both falsy.\<close>

definition truthy :: "string option \<Rightarrow> bool" where
  "truthy field = (case field of None \<Rightarrow> False | Some text \<Rightarrow> text \<noteq> [])"

definition failedResult :: "string \<Rightarrow> error \<Rightarrow> AttestationResult" where
  "failedResult addr e =
     \<lparr>result_address = addr, result_score = ''0'', txHash = None,
      result_error = Some (errorMessage e)\<rparr>"

text \<open>
  The body of the inner loop of \<^verbatim>\<open>processAddresses\<close>, on the results pushed so far and
  the events so far: the \<^verbatim>\<open>try\<close> with its three exits (the \<^verbatim>\<open>continue\<close> after a
  reported error, the end of the block after the one-second timer, the \<^verbatim>\<open>catch\<close>).
\<close>

definition processAddress ::
  "Env \<Rightarrow> string \<Rightarrow> AttestationResult list \<times> event list \<Rightarrow> string
   \<Rightarrow> AttestationResult list \<times> event list" where
  "processAddress env scorerId st addr =
     (case requestV2Score env (snd st) addr scorerId of
        (Inl e, trace1) \<Rightarrow> (fst st @ [failedResult addr e], trace1)
      | (Inr scoreData, trace1) \<Rightarrow>
          if truthy (error scoreData)
          then (fst st @ [\<lparr>result_address = addr, result_score = ''0'', txHash = None,
                           result_error = error scoreData\<rparr>], trace1)
          else (case writeScoreOnchain env trace1 addr scoreData scorerId of
                  (Inl e, trace2) \<Rightarrow> (fst st @ [failedResult addr e], trace2)
                | (Inr hash, trace2) \<Rightarrow>
                    (fst st @ [\<lparr>result_address = addr, result_score = score scoreData,
                               txHash = Some hash, result_error = None\<rparr>],
                     trace2 @ [Slept 1000])))"

text \<open>
  \<^verbatim>\<open>for (let i = 0; i < addresses.length; i += batchSize)\<close> over
  \<^verbatim>\<open>addresses.slice(i, i + batchSize)\<close>, each batch address by address.
\<close>

function processBatches ::
  "Env \<Rightarrow> string list \<Rightarrow> string \<Rightarrow> nat \<Rightarrow> AttestationResult list \<times> event list
   \<Rightarrow> AttestationResult list \<times> event list" where
  "processBatches env addresses scorerId i st =
     (if i < length addresses
      then processBatches env addresses scorerId (i + batchSize)
             (foldl (processAddress env scorerId) st (take batchSize (drop i addresses)))
      else st)"
  by pat_completeness auto
termination
  by (relation "measure (\<lambda>(env, addresses, scorerId, i, st). length addresses - i)")
     (auto simp: batchSize_def)

declare processBatches.simps [simp del]

definition runAddresses :: "Env \<Rightarrow> string list \<Rightarrow> string \<Rightarrow> AttestationResult list \<times> event list" where
  "runAddresses env addresses scorerId = processBatches env addresses scorerId 0 ([], [])"

definition processAddresses :: "Env \<Rightarrow> string list \<Rightarrow> string \<Rightarrow> AttestationResult list" where
  "processAddresses env addresses scorerId = fst (runAddresses env addresses scorerId)"

definition processEvents :: "Env \<Rightarrow> string list \<Rightarrow> string \<Rightarrow> event list" where
  "processEvents env addresses scorerId = snd (runAddresses env addresses scorerId)"

section \<open>Observations on a run\<close>

text \<open>The addresses for which a score was requested, in the order of the requests.\<close>

fun requestedOf :: "event \<Rightarrow> string list" where
  "requestedOf (ScoreRequested addr) = [addr]"
| "requestedOf (Submitted reqs) = []"
| "requestedOf (Slept ms) = []"

definition requestedAddresses :: "event list \<Rightarrow> string list" where
  "requestedAddresses trace = concat (map requestedOf trace)"

text \<open>
  The events of the run when the loop reaches the address of index \<open>i\<close>: those of the run
  over the first \<open>i\<close> addresses.
\<close>

definition eventsBefore :: "Env \<Rightarrow> string list \<Rightarrow> string \<Rightarrow> nat \<Rightarrow> event list" where
  "eventsBefore env addresses scorerId i = processEvents env (take i addresses) scorerId"

text \<open>An outcome carries a transaction hash or an error text, and not both.\<close>

definition settled :: "AttestationResult \<Rightarrow> bool" where
  "settled r = ((txHash r = None) = (result_error r \<noteq> None))"


section \<open>Decimal strings and their values\<close>

text \<open>
  The decimal strings of the specification: an optional minus sign, then digits with at
  most one decimal point and at least one digit; no exponent.  \<open>wholePart\<close> and
  \<open>fractionPart\<close> are the digits before and after the point, \<open>decimalValue\<close> is the
  rational number the string denotes, and \<open>discardExcess\<close> cuts the fractional digits
  beyond the first \<open>SCORE_DECIMALS\<close> off the end of the string.
\<close>

definition stripSign :: "string \<Rightarrow> string" where
  "stripSign s = (if s \<noteq> [] \<and> hd s = CHR ''-'' then tl s else s)"

definition wholePart :: "string \<Rightarrow> string" where
  "wholePart s = takeWhile (\<lambda>c. c \<noteq> CHR ''.'') (stripSign s)"

definition fractionPart :: "string \<Rightarrow> string" where
  "fractionPart s = drop 1 (dropWhile (\<lambda>c. c \<noteq> CHR ''.'') (stripSign s))"

definition decimalGrammar :: "string \<Rightarrow> bool" where
  "decimalGrammar s =
     (list_all (\<lambda>c. isDigit c \<or> c = CHR ''.'') (stripSign s) \<and>
      count_list (stripSign s) (CHR ''.'') \<le> 1 \<and>
      list_ex isDigit (stripSign s))"

definition decimalValue :: "string \<Rightarrow> rat" where
  "decimalValue s =
     (if s \<noteq> [] \<and> hd s = CHR ''-'' then - 1 else 1) *
     (of_nat (digitsValue (wholePart s)) +
      of_nat (digitsValue (fractionPart s)) / 10 ^ length (fractionPart s))"

definition discardExcess :: "string \<Rightarrow> string" where
  "discardExcess s = take (length s - (length (fractionPart s) - SCORE_DECIMALS)) s"

text \<open>The sign as it is written in front of the digits.\<close>

definition signText :: "bool \<Rightarrow> string" where
  "signText neg = (if neg then ''-'' else [])"


section \<open>Scenarios\<close>

text \<open>
  The end-to-end scenario of the specification: two addresses, a scoring service that
  answers score \<open>"5.6789"\<close> and threshold \<open>"20.0000"\<close> for both, and a contract that accepts
  the first address with the hash \<open>0xTX1\<close> and refuses the second with
  \<open>"nonce too low"\<close>.  The record of the scenario has no stamp here, so that the run
  reaches the contract; \<open>stampedResponse\<close> is the same record with the \<open>github\<close> stamp of
  the specification, for which the encoder raises.  The variants of the environment: a
  service that reports \<open>"rate limited"\<close>, and a service whose \<open>error\<close> field is the empty
  string.  The coder of the scenario encodes a tuple without stamps.
\<close>

definition addressA :: string where
  "addressA = ''0xAAAAAAAAAAAAAAAAAAAAAAAAAAAAAAAAAAAAAAA1''"

definition addressB :: string where
  "addressB = ''0xBBBBBBBBBBBBBBBBBBBBBBBBBBBBBBBBBBBBBBB2''"

definition scenarioResponse :: V2ScoreResponseData where
  "scenarioResponse =
     \<lparr>address = [], score = ''5.6789'', threshold = ''20.0000'', passing_score = True,
      last_score_timestamp = ''2025-01-01T00:00:00Z'',
      expiration_timestamp = ''2030-01-01T00:00:00Z'', error = None,
      stamps = []\<rparr>"

definition stampedResponse :: V2ScoreResponseData where
  "stampedResponse =
     scenarioResponse\<lparr>stamps :=
       [(''github'', \<lparr>stamp_score = ''5.6789'', dedup = False, expiration_date = None\<rparr>)]\<rparr>"

definition scenarioEnv :: Env where
  "scenarioEnv =
     \<lparr>SCORER_ENDPOINT = ''https://scorer.example'', SCHEMA_UID = ''0xSCHEMA'',
      dateGetTime = (\<lambda>text. Some 1893456000000),
      toBigInt = (\<lambda>text. Some 335),
      abiEncode = (\<lambda>tuple. if enc_stamps tuple = [] then Inr ''0xPAYLOAD''
                              else Inl InvalidArgument),
      axiosGet = (\<lambda>trace url. Inr scenarioResponse),
      submitAttestations = (\<lambda>trace reqs.
         if map recipient (concat (map requests reqs)) = [addressA]
         then Inr ''0xTX1'' else Inl (Thrown ''nonce too low''))\<rparr>"

definition stampedEnv :: Env where
  "stampedEnv = scenarioEnv\<lparr>axiosGet := (\<lambda>trace url. Inr stampedResponse)\<rparr>"

definition rateLimitedEnv :: Env where
  "rateLimitedEnv =
     scenarioEnv\<lparr>axiosGet := (\<lambda>trace url. Inr (scenarioResponse\<lparr>error := Some ''rate limited''\<rparr>))\<rparr>"

definition emptyErrorEnv :: Env where
  "emptyErrorEnv =
     scenarioEnv\<lparr>axiosGet := (\<lambda>trace url. Inr (scenarioResponse\<lparr>error := Some []\<rparr>))\<rparr>"

definition attestationFor :: "string \<Rightarrow> MultiAttestationRequest list" where
  "attestationFor addr =
     [\<lparr>schema = ''0xSCHEMA'',
       requests = [\<lparr>recipient = addr, expirationTime = 1893456000, revocable = True,
                    refUID = ZERO_BYTES32, payload = ''0xPAYLOAD'', transfer = 0\<rparr>]\<rparr>]"


section \<open>Properties of \<open>parseDecimal\<close>\<close>

lemma isDigit_dot [simp]: "\<not> isDigit CHR ''.''"
  by (simp add: isDigit_def)

lemma isDigit_minus [simp]: "\<not> isDigit CHR ''-''"
  by (simp add: isDigit_def)

lemma isDigit_zero [simp]: "isDigit CHR ''0''"
  by (simp add: isDigit_def)

lemma take_takeWhile_prefix:
  "n \<le> length (takeWhile P xs) \<Longrightarrow> take n xs = take n (takeWhile P xs)"
  by (induction xs arbitrary: n) (auto simp: take_Cons split: nat.splits if_splits)

lemma dropWhile_drop_prefix:
  "n \<le> length (takeWhile P xs) \<Longrightarrow> dropWhile P (drop n xs) = dropWhile P xs"
  by (induction xs arbitrary: n) (auto simp: drop_Cons split: nat.splits if_splits)

lemma truncate_branch:
  assumes "SCORE_DECIMALS < length (takeWhile isDigit cs)"
  shows "take SCORE_DECIMALS cs @ dropWhile isDigit (drop SCORE_DECIMALS cs)
         = take SCORE_DECIMALS (takeWhile isDigit cs) @ dropWhile isDigit cs"
  using assms take_takeWhile_prefix [of SCORE_DECIMALS isDigit cs]
    dropWhile_drop_prefix [of SCORE_DECIMALS isDigit cs] by simp

lemma filter_takeWhile_nil: "filter (\<lambda>c. \<not> P c) (takeWhile P xs) = []"
  by (induction xs) auto

lemma filter_not_dropWhile: "filter (\<lambda>c. \<not> P c) (dropWhile P xs) = filter (\<lambda>c. \<not> P c) xs"
  by (induction xs) auto

lemma filter_take_takeWhile_nil: "filter (\<lambda>c. \<not> P c) (take n (takeWhile P xs)) = []"
  by (induction xs arbitrary: n) (auto simp: take_Cons split: nat.splits)

lemma truncate_nondigits:
  "filter (\<lambda>c. \<not> isDigit c) (truncateDecimals s) = filter (\<lambda>c. \<not> isDigit c) s"
proof (induction s)
  case Nil
  show ?case by simp
next
  case (Cons c cs)
  show ?case
  proof (cases "c = CHR ''.'' \<and> SCORE_DECIMALS < length (takeWhile isDigit cs)")
    case True
    then show ?thesis
      by (simp add: truncate_branch filter_take_takeWhile_nil filter_not_dropWhile)
  next
    case False
    then show ?thesis using Cons.IH by auto
  qed
qed

lemma truncate_has_digit:
  "list_ex isDigit (truncateDecimals s) = list_ex isDigit s"
proof (induction s)
  case Nil
  show ?case by simp
next
  case (Cons c cs)
  show ?case
  proof (cases "c = CHR ''.'' \<and> SCORE_DECIMALS < length (takeWhile isDigit cs)")
    case True
    then have len: "SCORE_DECIMALS < length (takeWhile isDigit cs)" by simp
    then obtain d ds where tw: "takeWhile isDigit cs = d # ds"
      by (cases "takeWhile isDigit cs") auto
    have dd: "isDigit d" using tw by (metis list.set_intros(1) set_takeWhileD)
    have "cs = (d # ds) @ dropWhile isDigit cs" using tw takeWhile_dropWhile_id [of isDigit cs] by simp
    then obtain r where csr: "cs = d # r" by simp
    show ?thesis using True dd csr by (simp add: list_ex_iff SCORE_DECIMALS_def)
  next
    case False
    then show ?thesis using Cons.IH by auto
  qed
qed


lemma stripSign_truncate: "stripSign (truncateDecimals s) = truncateDecimals (stripSign s)"
  by (cases s) (auto simp: stripSign_def)

lemma all_digit_or_dot:
  "list_all (\<lambda>c. isDigit c \<or> c = CHR ''.'') s
   = list_all (\<lambda>c. c = CHR ''.'') (filter (\<lambda>c. \<not> isDigit c) s)"
  by (induction s) auto

lemma count_dots:
  "count_list s (CHR ''.'') = count_list (filter (\<lambda>c. \<not> isDigit c) s) (CHR ''.'')"
  by (induction s) auto

lemma decimalGrammar_truncate: "decimalGrammar (truncateDecimals s) = decimalGrammar s"
  unfolding decimalGrammar_def stripSign_truncate
  by (simp only: all_digit_or_dot [of "truncateDecimals (stripSign s)"]
      count_dots [of "truncateDecimals (stripSign s)"] truncate_nondigits truncate_has_digit
      all_digit_or_dot [symmetric] count_dots [symmetric])

lemma digits_no_dot: "list_all isDigit w \<Longrightarrow> takeWhile (\<lambda>c. c \<noteq> CHR ''.'') (w @ r) = w @ takeWhile (\<lambda>c. c \<noteq> CHR ''.'') r"
  by (induction w) auto

lemma takeWhile_digits_append: "list_all isDigit w \<Longrightarrow> takeWhile isDigit (w @ r) = w @ takeWhile isDigit r"
  by (induction w) auto

lemma dropWhile_digits_append: "list_all isDigit w \<Longrightarrow> dropWhile isDigit (w @ r) = dropWhile isDigit r"
  by (induction w) auto

lemma takeWhile_digits_all: "list_all isDigit w \<Longrightarrow> takeWhile isDigit w = w"
  by (induction w) auto

lemma dropWhile_digits_all: "list_all isDigit w \<Longrightarrow> dropWhile isDigit w = []"
  by (induction w) auto

text \<open>The shape of a string of the grammar: digits, then nothing or a point and digits.\<close>

lemma decimalGrammar_shape:
  assumes "decimalGrammar s"
  shows "list_all isDigit (wholePart s)"
    and "list_all isDigit (fractionPart s)"
    and "wholePart s \<noteq> [] \<or> fractionPart s \<noteq> []"
    and "stripSign s = wholePart s \<or> stripSign s = wholePart s @ CHR ''.'' # fractionPart s"
proof -
  define b where "b = stripSign s"
  define w where "w = takeWhile (\<lambda>c. c \<noteq> CHR ''.'') b"
  define r where "r = dropWhile (\<lambda>c. c \<noteq> CHR ''.'') b"
  have b: "b = w @ r" by (simp add: w_def r_def)
  have allb: "\<forall>c\<in>set b. isDigit c \<or> c = CHR ''.''"
    using assms by (simp add: decimalGrammar_def b_def list_all_iff)
  have cnt: "count_list b (CHR ''.'') \<le> 1"
    using assms by (simp add: decimalGrammar_def b_def)
  have ex: "\<exists>c\<in>set b. isDigit c"
    using assms by (simp add: decimalGrammar_def b_def list_ex_iff)
  have w: "list_all isDigit w"
    unfolding list_all_iff
  proof
    fix c assume c: "c \<in> set w"
    then have "c \<noteq> CHR ''.''" unfolding w_def by (auto dest: set_takeWhileD)
    moreover have "c \<in> set b" using c b by simp
    ultimately show "isDigit c" using allb by blast
  qed
  have wp: "wholePart s = w" by (simp add: wholePart_def w_def b_def)
  have fp: "fractionPart s = drop 1 r" by (simp add: fractionPart_def r_def b_def)
  show "list_all isDigit (wholePart s)" using w wp by simp
  have rshape: "r = [] \<or> r = CHR ''.'' # drop 1 r"
  proof (cases r)
    case Nil
    then show ?thesis by simp
  next
    case (Cons x xs)
    then have "x = CHR ''.''" using hd_dropWhile [of "\<lambda>c. c \<noteq> CHR ''.''" b] by (simp add: r_def)
    then show ?thesis using Cons by simp
  qed
  show f: "list_all isDigit (fractionPart s)"
  proof (cases r)
    case Nil
    then show ?thesis by (simp add: fp)
  next
    case (Cons x xs)
    then have r: "r = CHR ''.'' # xs" using rshape by simp
    have "count_list b (CHR ''.'') = count_list w (CHR ''.'') + 1 + count_list xs (CHR ''.'')"
      by (simp add: b r)
    then have "count_list xs (CHR ''.'') = 0" using cnt by simp
    then have nodot: "CHR ''.'' \<notin> set xs" by (simp add: count_list_0_iff)
    have "\<forall>c\<in>set xs. isDigit c"
    proof
      fix c assume c: "c \<in> set xs"
      then have "c \<in> set b" by (simp add: b r)
      moreover have "c \<noteq> CHR ''.''" using c nodot by auto
      ultimately show "isDigit c" using allb by blast
    qed
    then show ?thesis by (simp add: fp r list_all_iff)
  qed
  show "wholePart s \<noteq> [] \<or> fractionPart s \<noteq> []"
  proof (rule ccontr)
    assume "\<not> (wholePart s \<noteq> [] \<or> fractionPart s \<noteq> [])"
    then have "w = []" "drop 1 r = []" using wp fp by auto
    then have "b = [] \<or> b = [CHR ''.'']" using rshape b by auto
    then show False using ex by auto
  qed
  show "stripSign s = wholePart s \<or> stripSign s = wholePart s @ CHR ''.'' # fractionPart s"
    using rshape b wp fp b_def by auto
qed


lemma truncate_digits_append: "list_all isDigit w \<Longrightarrow> truncateDecimals (w @ r) = w @ truncateDecimals r"
  by (induction w) auto

lemma truncate_point_digits:
  assumes "list_all isDigit f"
  shows "truncateDecimals (CHR ''.'' # f) = CHR ''.'' # take SCORE_DECIMALS f"
proof (cases "SCORE_DECIMALS < length f")
  case True
  have "dropWhile isDigit (drop SCORE_DECIMALS f) = []"
    using assms by (intro dropWhile_digits_all) (auto simp: list_all_iff dest: in_set_dropD)
  then show ?thesis using True assms by (simp add: takeWhile_digits_all)
next
  case False
  have "truncateDecimals f = f" using truncate_digits_append [OF assms, of "[]"] by simp
  then show ?thesis using False assms by (simp add: takeWhile_digits_all)
qed

lemma truncate_canon:
  assumes "list_all isDigit w" "list_all isDigit f"
  shows "truncateDecimals (signText neg @ w @ CHR ''.'' # f) = signText neg @ w @ CHR ''.'' # take SCORE_DECIMALS f"
    and "truncateDecimals (signText neg @ w) = signText neg @ w"
proof -
  have a: "truncateDecimals (w @ CHR ''.'' # f) = w @ CHR ''.'' # take SCORE_DECIMALS f"
    using assms by (simp only: truncate_digits_append truncate_point_digits)
  have b: "truncateDecimals w = w"
    using truncate_digits_append [OF assms(1), of "[]"] by simp
  show "truncateDecimals (signText neg @ w @ CHR ''.'' # f) = signText neg @ w @ CHR ''.'' # take SCORE_DECIMALS f"
    using a by (simp add: signText_def del: truncateDecimals.simps(2)) (simp add: a)
  show "truncateDecimals (signText neg @ w) = signText neg @ w"
    using b by (simp add: signText_def)
qed

lemma parseUnits_canon_point:
  assumes w: "list_all isDigit w" and f: "list_all isDigit f" and ne: "w \<noteq> [] \<or> f \<noteq> []"
  shows "parseUnits (signText neg @ w @ CHR ''.'' # f) d =
         (if list_all (\<lambda>c. c = CHR ''0'') (drop d f)
          then Inr ((if neg then - 1 else 1) *
                    int (digitsValue (w @ take d (f @ replicate (d - length f) (CHR ''0'')))))
          else Inl NumericFault)"
proof -
  define v where "v = signText neg @ w @ CHR ''.'' # f"
  have nm: "\<not> (w @ CHR ''.'' # f \<noteq> [] \<and> hd (w @ CHR ''.'' # f) = CHR ''-'')"
    using w by (cases w) auto
  have neg: "(v \<noteq> [] \<and> hd v = CHR ''-'') = neg"
    using nm by (auto simp: v_def signText_def)
  have r0: "(if neg then tl v else v) = w @ CHR ''.'' # f"
    by (auto simp: v_def signText_def)
  have whole: "takeWhile isDigit (w @ CHR ''.'' # f) = w"
    using w by (simp add: takeWhile_digits_append)
  have r1: "dropWhile isDigit (w @ CHR ''.'' # f) = CHR ''.'' # f"
    using w by (simp add: dropWhile_digits_append)
  have dec: "takeWhile isDigit f = f" using f by (rule takeWhile_digits_all)
  have r3: "dropWhile isDigit f = []" using f by (rule dropWhile_digits_all)
  show ?thesis
    unfolding v_def [symmetric] parseUnits_def Let_def neg r0 whole r1
    using ne by (simp add: dec r3)
qed

lemma parseUnits_canon_whole:
  assumes w: "list_all isDigit w" and ne: "w \<noteq> []"
  shows "parseUnits (signText neg @ w) d =
         Inr ((if neg then - 1 else 1) * int (digitsValue (w @ replicate d (CHR ''0''))))"
proof -
  define v where "v = signText neg @ w"
  have nm: "\<not> (w \<noteq> [] \<and> hd w = CHR ''-'')"
    using w by (cases w) auto
  have neg: "(v \<noteq> [] \<and> hd v = CHR ''-'') = neg"
    using nm ne by (auto simp: v_def signText_def)
  have r0: "(if neg then tl v else v) = w"
    by (auto simp: v_def signText_def)
  have whole: "takeWhile isDigit w = w" using w by (rule takeWhile_digits_all)
  have r1: "dropWhile isDigit w = []" using w by (rule dropWhile_digits_all)
  show ?thesis
    unfolding v_def [symmetric] parseUnits_def Let_def neg r0 whole r1
    using ne by simp
qed


lemma sign_split: "s = signText (s \<noteq> [] \<and> hd s = CHR ''-'') @ stripSign s"
  by (cases s) (auto simp: signText_def stripSign_def)

lemma digit_not_dot: "isDigit c \<Longrightarrow> c \<noteq> CHR ''.''"
  using isDigit_dot by blast

lemma fraction_of_digits: "list_all isDigit w \<Longrightarrow> dropWhile (\<lambda>c. c \<noteq> CHR ''.'') w = []"
  unfolding dropWhile_eq_Nil_conv list_all_iff using digit_not_dot by blast

lemma padded_take:
  "take n (take n f @ replicate (n - length (take n f)) c) = take n (f @ replicate (n - length f) c)"
proof (cases "n \<le> length f")
  case True
  have "take n (take n f @ replicate (n - length (take n f)) c) = take n f" using True by simp
  moreover have "take n (f @ replicate (n - length f) c) = take n f" using True by simp
  ultimately show ?thesis by (simp only:)
next
  case False
  then show ?thesis by simp
qed

lemma parseDecimal_grammar:
  assumes g: "decimalGrammar s"
  shows "parseDecimal s =
         Inr ((if s \<noteq> [] \<and> hd s = CHR ''-'' then - 1 else 1) *
              int (digitsValue (wholePart s @
                     take SCORE_DECIMALS (fractionPart s @
                       replicate (SCORE_DECIMALS - length (fractionPart s)) (CHR ''0'')))))"
proof -
  define neg where "neg = (s \<noteq> [] \<and> hd s = CHR ''-'')"
  define w where "w = wholePart s"
  define f where "f = fractionPart s"
  define b where "b = stripSign s"
  note sh = decimalGrammar_shape [OF g, folded w_def f_def b_def]
  have w: "list_all isDigit w" and f: "list_all isDigit f" using sh by auto
  have s: "s = signText neg @ b" unfolding neg_def b_def by (rule sign_split)
  from sh(4) show ?thesis
  proof
    assume bw: "b = w"
    have "f = []" unfolding f_def fractionPart_def b_def [symmetric] bw using w by (simp add: fraction_of_digits)
    then have wne: "w \<noteq> []" using sh(3) by simp
    have "parseDecimal s = parseUnits (truncateDecimals (signText neg @ w)) SCORE_DECIMALS"
      unfolding parseDecimal_def by (subst s) (simp only: bw)
    also have "\<dots> = parseUnits (signText neg @ w) SCORE_DECIMALS"
      by (simp only: truncate_canon(2) [OF w f])
    also have "\<dots> = Inr ((if neg then - 1 else 1) * int (digitsValue (w @ replicate SCORE_DECIMALS (CHR ''0''))))"
      by (rule parseUnits_canon_whole [OF w wne])
    finally have "parseDecimal s = Inr ((if neg then - 1 else 1) * int (digitsValue (w @ replicate SCORE_DECIMALS (CHR ''0''))))" .
    then have "parseDecimal s = Inr ((if neg then - 1 else 1) * int (digitsValue (w @
        take SCORE_DECIMALS (f @ replicate (SCORE_DECIMALS - length f) (CHR ''0'')))))"
      using \<open>f = []\<close> by simp
    then show ?thesis unfolding neg_def w_def f_def .
  next
    assume bw: "b = w @ CHR ''.'' # f"
    have tf: "list_all isDigit (take SCORE_DECIMALS f)"
      using f by (auto simp: list_all_iff dest: in_set_takeD)
    have ne: "w \<noteq> [] \<or> take SCORE_DECIMALS f \<noteq> []"
      using sh(3) by (auto simp: SCORE_DECIMALS_def)
    have "parseDecimal s = parseUnits (truncateDecimals (signText neg @ w @ CHR ''.'' # f)) SCORE_DECIMALS"
      unfolding parseDecimal_def by (subst s) (simp only: bw)
    also have "\<dots> = parseUnits (signText neg @ w @ CHR ''.'' # take SCORE_DECIMALS f) SCORE_DECIMALS"
      by (simp only: truncate_canon(1) [OF w f])
    also have "\<dots> = Inr ((if neg then - 1 else 1) * int (digitsValue (w @ take SCORE_DECIMALS
         (take SCORE_DECIMALS f @ replicate (SCORE_DECIMALS - length (take SCORE_DECIMALS f)) (CHR ''0'')))))"
    proof -
      have z: "drop SCORE_DECIMALS (take SCORE_DECIMALS f) = []" by simp
      show ?thesis
        using parseUnits_canon_point [OF w tf ne, of neg SCORE_DECIMALS]
        by (simp only: z list.pred_inject if_True)
    qed
    finally have "parseDecimal s = Inr ((if neg then - 1 else 1) * int (digitsValue (w @ take SCORE_DECIMALS
         (take SCORE_DECIMALS f @ replicate (SCORE_DECIMALS - length (take SCORE_DECIMALS f)) (CHR ''0'')))))" .
    then show ?thesis unfolding padded_take neg_def w_def f_def .
  qed
qed

lemma grammar_canon:
  assumes w: "list_all isDigit w" and f: "list_all isDigit f" and ne: "w \<noteq> [] \<or> f \<noteq> []"
    and b: "stripSign t = w @ r" and r: "(r = [] \<and> f = []) \<or> r = CHR ''.'' # f"
  shows "decimalGrammar t"
proof -
  have cw: "count_list w (CHR ''.'') = 0" using w by (auto simp: count_list_0_iff list_all_iff)
  have cf: "count_list f (CHR ''.'') = 0" using f by (auto simp: count_list_0_iff list_all_iff)
  from r show ?thesis
  proof
    assume "r = [] \<and> f = []"
    moreover from this ne have "\<exists>x. x \<in> set w" by (cases w) auto
    ultimately show ?thesis using w cw by (auto simp: decimalGrammar_def b list_all_iff list_ex_iff)
  next
    assume "r = CHR ''.'' # f"
    moreover from ne have "\<exists>x. x \<in> set w \<or> x \<in> set f" by (cases w; cases f) auto
    ultimately show ?thesis using w f cw cf by (auto simp: decimalGrammar_def b list_all_iff list_ex_iff)
  qed
qed

lemma parseUnits_accepts_grammar:
  assumes "parseUnits t d \<noteq> Inl MalformedDecimal"
  shows "decimalGrammar t"
proof -
  define b where "b = stripSign t"
  define whole where "whole = takeWhile isDigit b"
  define r1 where "r1 = dropWhile isDigit b"
  define r2 where "r2 = (if r1 \<noteq> [] \<and> hd r1 = CHR ''.'' then tl r1 else r1)"
  define decimal where "decimal = takeWhile isDigit r2"
  define r3 where "r3 = dropWhile isDigit r2"
  have "r3 \<noteq> [] \<or> (whole = [] \<and> decimal = []) \<Longrightarrow> parseUnits t d = Inl MalformedDecimal"
    unfolding parseUnits_def Let_def r3_def r2_def r1_def whole_def decimal_def b_def stripSign_def
    by simp
  then have ok: "r3 = [] \<and> \<not> (whole = [] \<and> decimal = [])"
    using assms by blast
  have bw: "b = whole @ r1" by (simp add: whole_def r1_def)
  have "r3 = []" using ok by blast
  then have "\<forall>x\<in>set r2. isDigit x" unfolding r3_def dropWhile_eq_Nil_conv .
  then have r2d: "r2 = decimal" unfolding decimal_def by (simp add: list_all_iff takeWhile_digits_all)
  have w: "list_all isDigit whole" by (auto simp: whole_def list_all_iff dest: set_takeWhileD)
  have d: "list_all isDigit decimal" by (auto simp: decimal_def list_all_iff dest: set_takeWhileD)
  have "(r1 = [] \<and> decimal = []) \<or> r1 = CHR ''.'' # decimal"
  proof (cases r1)
    case Nil
    then show ?thesis using r2d by (simp add: r2_def)
  next
    case (Cons x xs)
    have nx: "\<not> isDigit x" using Cons hd_dropWhile [of isDigit b] by (simp add: r1_def)
    show ?thesis
    proof (cases "x = CHR ''.''")
      case True
      then show ?thesis using Cons r2d by (simp add: r2_def)
    next
      case False
      then have "r2 = x # xs" using Cons by (simp add: r2_def)
      then have "r3 = x # xs" using nx by (simp add: r3_def)
      then show ?thesis using ok by simp
    qed
  qed
  moreover have "stripSign t = whole @ r1" using bw by (simp only: b_def)
  moreover have "whole \<noteq> [] \<or> decimal \<noteq> []" using ok by blast
  ultimately show ?thesis using grammar_canon [OF w d] by blast
qed

lemma digitsValue_append:
  "digitsValue (a @ b) = digitsValue a * 10 ^ length b + digitsValue b"
proof (induction b rule: rev_induct)
  case Nil
  show ?case by (simp add: digitsValue_def)
next
  case (snoc x xs)
  have "digitsValue (a @ xs @ [x]) = 10 * digitsValue (a @ xs) + (of_char x - 48)"
    by (simp add: digitsValue_def)
  moreover have "digitsValue (xs @ [x]) = 10 * digitsValue xs + (of_char x - 48)"
    by (simp add: digitsValue_def)
  ultimately show ?case using snoc by (simp add: algebra_simps)
qed

lemma digitsValue_zeros: "digitsValue (replicate n (CHR ''0'')) = 0"
proof (induction n)
  case 0
  show ?case by (simp add: digitsValue_def)
next
  case (Suc n)
  have "digitsValue (replicate (Suc n) (CHR ''0'')) = digitsValue ([CHR ''0''] @ replicate n (CHR ''0''))"
    by simp
  also have "\<dots> = digitsValue [CHR ''0''] * 10 ^ n + digitsValue (replicate n (CHR ''0''))"
    by (simp only: digitsValue_append length_replicate)
  also have "\<dots> = 0" using Suc by (simp add: digitsValue_def)
  finally show ?case .
qed


lemma digitsValue_bound: "list_all isDigit ds \<Longrightarrow> digitsValue ds < 10 ^ length ds"
proof (induction ds rule: rev_induct)
  case Nil
  show ?case by (simp add: digitsValue_def)
next
  case (snoc x xs)
  have "digitsValue (xs @ [x]) = 10 * digitsValue xs + (of_char x - 48)"
    by (simp add: digitsValue_def)
  moreover have "isDigit x" using snoc.prems by simp
  then have "(of_char x :: nat) - 48 \<le> 9" unfolding isDigit_def by linarith
  moreover have "digitsValue xs < 10 ^ length xs" using snoc by simp
  ultimately show ?case by simp
qed

lemma canon_parts:
  assumes w: "list_all isDigit w"
  shows "stripSign (signText neg @ w @ CHR ''.'' # f) = w @ CHR ''.'' # f"
    and "wholePart (signText neg @ w @ CHR ''.'' # f) = w"
    and "fractionPart (signText neg @ w @ CHR ''.'' # f) = f"
    and "(signText neg @ w @ CHR ''.'' # f \<noteq> [] \<and> hd (signText neg @ w @ CHR ''.'' # f) = CHR ''-'') = neg"
proof -
  have nm: "hd (w @ CHR ''.'' # f) \<noteq> CHR ''-''" using w by (cases w) auto
  show st: "stripSign (signText neg @ w @ CHR ''.'' # f) = w @ CHR ''.'' # f"
    using nm by (simp add: stripSign_def signText_def)
  have tw: "takeWhile (\<lambda>c. c \<noteq> CHR ''.'') (w @ CHR ''.'' # f) = w"
    using w by (simp add: digits_no_dot)
  show "wholePart (signText neg @ w @ CHR ''.'' # f) = w"
    unfolding wholePart_def st by (rule tw)
  have "dropWhile (\<lambda>c. c \<noteq> CHR ''.'') (w @ CHR ''.'' # f) = CHR ''.'' # f"
    using tw takeWhile_dropWhile_id [of "\<lambda>c. c \<noteq> CHR ''.''" "w @ CHR ''.'' # f"]
    by (metis same_append_eq)
  then show "fractionPart (signText neg @ w @ CHR ''.'' # f) = f"
    unfolding fractionPart_def st by simp
  show "(signText neg @ w @ CHR ''.'' # f \<noteq> [] \<and> hd (signText neg @ w @ CHR ''.'' # f) = CHR ''-'') = neg"
    using nm by (simp add: signText_def)
qed

lemma long_fraction_shape:
  assumes g: "decimalGrammar s" and len: "0 < length (fractionPart s)"
  shows "s = signText (s \<noteq> [] \<and> hd s = CHR ''-'') @ wholePart s @ CHR ''.'' # fractionPart s"
proof -
  note sh = decimalGrammar_shape [OF g]
  have "stripSign s \<noteq> wholePart s"
  proof
    assume a: "stripSign s = wholePart s"
    have "fractionPart s = []"
      unfolding fractionPart_def a using sh(1) by (simp add: fraction_of_digits)
    then show False using len by simp
  qed
  then have "stripSign s = wholePart s @ CHR ''.'' # fractionPart s" using sh(4) by blast
  then show ?thesis using sign_split [of s] by simp
qed

lemma take_canon:
  assumes "SCORE_DECIMALS < length f"
  shows "take (length (sg @ w @ c # f) - (length f - SCORE_DECIMALS)) (sg @ w @ c # f)
         = sg @ w @ c # take SCORE_DECIMALS f"
proof -
  have "length (sg @ w @ c # f) - (length f - SCORE_DECIMALS) = length sg + (length w + Suc SCORE_DECIMALS)"
    using assms by simp
  then show ?thesis by (simp only: take_append) simp
qed

lemma floor_scaled:
  fixes a b c k :: nat
  assumes c: "c < 10 ^ k"
  shows "\<lfloor>((of_nat a :: rat) + of_nat (b * 10 ^ k + c) / 10 ^ (k + 4)) * 10 ^ 4\<rfloor> = int (a * 10 ^ 4 + b)"
proof -
  have eq: "((of_nat a :: rat) + of_nat (b * 10 ^ k + c) / 10 ^ (k + 4)) * 10 ^ 4
            = of_int (int (a * 10 ^ 4 + b)) + of_nat c / 10 ^ k"
    by (simp add: field_simps power_add)
  have lo: "(0::rat) \<le> of_nat c / 10 ^ k" by simp
  have "(of_nat c :: rat) < 10 ^ k" using c by (metis of_nat_less_iff of_nat_numeral of_nat_power)
  then have hi: "(of_nat c :: rat) / 10 ^ k < 1" by simp
  show ?thesis unfolding eq by (rule floor_unique) (use lo hi in auto)
qed

text \<open>
  Claim C4.  For every decimal string with more than \<open>SCORE_DECIMALS\<close> (four) fractional
  digits, \<open>parseDecimal\<close> discards the excess digits: it returns what it returns for the
  string cut after the fourth fractional digit, and the magnitude of the result is the
  magnitude of the value times \<open>10 ^ 4\<close> rounded down, so the discarded digits never round
  the fourth one up.
\<close>

theorem parseDecimal_truncates:
  assumes g: "decimalGrammar s" and len: "SCORE_DECIMALS < length (fractionPart s)"
  shows "\<exists>n. parseDecimal s = Inr n \<and> parseDecimal (discardExcess s) = Inr n \<and>
             \<bar>n\<bar> = \<lfloor>\<bar>decimalValue s\<bar> * 10 ^ SCORE_DECIMALS\<rfloor>"
proof -
  define neg where "neg = (s \<noteq> [] \<and> hd s = CHR ''-'')"
  define w where "w = wholePart s"
  define f where "f = fractionPart s"
  define t where "t = signText neg @ w @ CHR ''.'' # take SCORE_DECIMALS f"
  define m where "m = digitsValue (w @ take SCORE_DECIMALS f)"
  note sh = decimalGrammar_shape [OF g, folded w_def f_def]
  have w: "list_all isDigit w" and f: "list_all isDigit f" using sh by auto
  have lf: "SCORE_DECIMALS < length f" using len by (simp only: f_def)
  have "0 < length (fractionPart s)" using len by linarith
  then have s: "s = signText neg @ w @ CHR ''.'' # f"
    unfolding neg_def w_def f_def by (rule long_fraction_shape [OF g])
  have tf: "list_all isDigit (take SCORE_DECIMALS f)"
    using f by (auto simp: list_all_iff dest: in_set_takeD)
  have tne: "take SCORE_DECIMALS f \<noteq> []" using lf by (auto simp: SCORE_DECIMALS_def)
  have dt: "discardExcess s = t"
  proof -
    have "discardExcess s = take (length s - (length f - SCORE_DECIMALS)) s"
      by (simp only: discardExcess_def f_def)
    also have "\<dots> = take (length (signText neg @ w @ CHR ''.'' # f) - (length f - SCORE_DECIMALS))
                        (signText neg @ w @ CHR ''.'' # f)"
      by (subst (1 2) s) (rule refl)
    also have "\<dots> = t" unfolding t_def by (rule take_canon [OF lf])
    finally show ?thesis .
  qed
  have gt: "decimalGrammar t"
    using grammar_canon [OF w tf, of t "CHR ''.'' # take SCORE_DECIMALS f"] tne
      canon_parts(1) [OF w, of neg "take SCORE_DECIMALS f"]
    by (simp add: t_def)
  have pad_s: "take SCORE_DECIMALS (f @ replicate (SCORE_DECIMALS - length f) (CHR ''0'')) = take SCORE_DECIMALS f"
    using lf by simp
  have ps: "parseDecimal s = Inr ((if neg then - 1 else 1) * int m)"
    using parseDecimal_grammar [OF g] unfolding neg_def [symmetric] w_def [symmetric] f_def [symmetric] pad_s m_def .
  have pad_t: "take SCORE_DECIMALS (take SCORE_DECIMALS f @
      replicate (SCORE_DECIMALS - length (take SCORE_DECIMALS f)) (CHR ''0'')) = take SCORE_DECIMALS f"
    using lf by simp
  have pt: "parseDecimal t = Inr ((if neg then - 1 else 1) * int m)"
    using parseDecimal_grammar [OF gt]
    unfolding t_def canon_parts(2,3,4) [OF w] pad_t m_def .
  have absn: "\<bar>(if neg then - 1 else 1) * int m\<bar> = int m" by simp
  define k where "k = length f - SCORE_DECIMALS"
  have fsplit: "f = take SCORE_DECIMALS f @ drop SCORE_DECIMALS f" by simp
  have lk: "length f = k + 4" using lf by (simp add: k_def SCORE_DECIMALS_def)
  have ldrop: "length (drop SCORE_DECIMALS f) = k" by (simp add: k_def)
  have dvf: "digitsValue f = digitsValue (take SCORE_DECIMALS f) * 10 ^ k + digitsValue (drop SCORE_DECIMALS f)"
    using digitsValue_append [of "take SCORE_DECIMALS f" "drop SCORE_DECIMALS f"] ldrop by simp
  have cb: "digitsValue (drop SCORE_DECIMALS f) < 10 ^ k"
    using digitsValue_bound [of "drop SCORE_DECIMALS f"] f ldrop
    by (auto simp: list_all_iff dest: in_set_dropD)
  have mval: "m = digitsValue w * 10 ^ 4 + digitsValue (take SCORE_DECIMALS f)"
    using digitsValue_append [of w "take SCORE_DECIMALS f"] lf by (simp add: m_def SCORE_DECIMALS_def)
  have av: "\<bar>decimalValue s\<bar> = of_nat (digitsValue w) + of_nat (digitsValue f) / 10 ^ length f"
    unfolding decimalValue_def w_def [symmetric] f_def [symmetric]
    by (simp add: abs_mult)
  have "\<lfloor>\<bar>decimalValue s\<bar> * 10 ^ SCORE_DECIMALS\<rfloor> = int m"
    unfolding av dvf lk mval SCORE_DECIMALS_def [of] 
    using floor_scaled [OF cb, of "digitsValue w" "digitsValue (take 4 f)"]
    by (simp add: SCORE_DECIMALS_def)
  then show ?thesis using ps pt dt absn by simp
qed


lemmas decimal_eval = decimalGrammar_def stripSign_def wholePart_def fractionPart_def
  discardExcess_def decimalValue_def isDigit_def SCORE_DECIMALS_def digitsValue_def

text \<open>
  The instance of the specification: \<open>parseDecimal "2.12345" = parseDecimal "2.1234"\<close>.
\<close>

theorem parseDecimal_truncates_witness:
  "decimalGrammar ''2.12345'' \<and> SCORE_DECIMALS < length (fractionPart ''2.12345'') \<and>
   parseDecimal ''2.12345'' = parseDecimal ''2.1234''"
proof -
  have g: "decimalGrammar ''2.12345''" by (simp add: decimal_eval)
  have l: "SCORE_DECIMALS < length (fractionPart ''2.12345'')" by (simp add: decimal_eval)
  have d: "discardExcess ''2.12345'' = ''2.1234''" by (simp add: decimal_eval)
  from parseDecimal_truncates [OF g l] show ?thesis using g l unfolding d by auto
qed

text \<open>
  Claim C6.  For every decimal string \<open>s\<close> with at most four fractional digits,
  \<open>parseDecimal s\<close> returns an integer \<open>n\<close> with \<open>n / 10 ^ 4\<close> equal to the rational value
  that \<open>s\<close> denotes: nothing is lost, and the integer is computed from the digits alone.
\<close>

theorem parseDecimal_exact:
  assumes g: "decimalGrammar s" and len: "length (fractionPart s) \<le> SCORE_DECIMALS"
  shows "\<exists>n. parseDecimal s = Inr n \<and> of_int n / 10 ^ SCORE_DECIMALS = decimalValue s"
proof -
  define neg where "neg = (s \<noteq> [] \<and> hd s = CHR ''-'')"
  define w where "w = wholePart s"
  define f where "f = fractionPart s"
  define k where "k = SCORE_DECIMALS - length f"
  define m where "m = digitsValue (w @ f @ replicate k (CHR ''0''))"
  have lf: "length f \<le> SCORE_DECIMALS" using len by (simp only: f_def)
  have pad: "take SCORE_DECIMALS (f @ replicate (SCORE_DECIMALS - length f) (CHR ''0'')) = f @ replicate k (CHR ''0'')"
    using lf by (simp add: k_def)
  have p: "parseDecimal s = Inr ((if neg then - 1 else 1) * int m)"
    using parseDecimal_grammar [OF g]
    unfolding neg_def [symmetric] w_def [symmetric] f_def [symmetric] pad m_def .
  have sc: "SCORE_DECIMALS = length f + k" using lf by (simp add: k_def)
  have "digitsValue (f @ replicate k (CHR ''0'')) = digitsValue f * 10 ^ k"
    by (simp add: digitsValue_append digitsValue_zeros)
  then have mval: "m = digitsValue w * 10 ^ SCORE_DECIMALS + digitsValue f * 10 ^ k"
    unfolding m_def using digitsValue_append [of w "f @ replicate k (CHR ''0'')"] sc by simp
  have "(of_nat m :: rat) / 10 ^ SCORE_DECIMALS
        = of_nat (digitsValue w) + of_nat (digitsValue f) / 10 ^ length f"
    unfolding mval sc by (simp add: field_simps power_add)
  then have "(of_int ((if neg then - 1 else 1) * int m) :: rat) / 10 ^ SCORE_DECIMALS = decimalValue s"
    unfolding decimalValue_def neg_def [symmetric] w_def [symmetric] f_def [symmetric]
    by simp
  then show ?thesis using p by blast
qed

text \<open>
  At \<open>"5.6789"\<close> the scaled integer is \<open>56789\<close>.
\<close>

theorem parseDecimal_exact_witness:
  "decimalGrammar ''5.6789'' \<and> length (fractionPart ''5.6789'') \<le> SCORE_DECIMALS \<and>
   parseDecimal ''5.6789'' = Inr 56789 \<and> decimalValue ''5.6789'' = 56789 / 10000"
proof -
  have g: "decimalGrammar ''5.6789''" by (simp add: decimal_eval)
  have l: "length (fractionPart ''5.6789'') \<le> SCORE_DECIMALS" by (simp add: decimal_eval)
  have v: "decimalValue ''5.6789'' = 56789 / 10000" by (simp add: decimal_eval)
  from parseDecimal_exact [OF g l] obtain n
    where n: "parseDecimal ''5.6789'' = Inr n" "of_int n / 10 ^ SCORE_DECIMALS = decimalValue ''5.6789''"
    by blast
  have "(of_int n :: rat) = 56789" using n(2) unfolding v by (simp add: SCORE_DECIMALS_def)
  then have "n = 56789" by (metis of_int_eq_iff of_int_numeral)
  then show ?thesis using g l v n(1) by simp
qed

text \<open>
  Claim C7.  \<open>parseDecimal\<close> fails with \<open>MalformedDecimal\<close> on every string that is not a
  decimal string (digits, at most one decimal point, an optional sign, no exponent).
\<close>

theorem parseDecimal_rejects_malformed:
  assumes "\<not> decimalGrammar s"
  shows "parseDecimal s = Inl MalformedDecimal"
proof (rule ccontr)
  assume "parseDecimal s \<noteq> Inl MalformedDecimal"
  then have "decimalGrammar (truncateDecimals s)"
    unfolding parseDecimal_def by (rule parseUnits_accepts_grammar)
  then show False using assms by (simp only: decimalGrammar_truncate)
qed

text \<open>
  In particular it fails on \<open>"abc"\<close>, on \<open>"1.2.3"\<close> and on the empty string.
\<close>

theorem parseDecimal_rejects_malformed_witness:
  "\<not> decimalGrammar ''abc'' \<and> parseDecimal ''abc'' = Inl MalformedDecimal \<and>
   \<not> decimalGrammar ''1.2.3'' \<and> parseDecimal ''1.2.3'' = Inl MalformedDecimal \<and>
   \<not> decimalGrammar [] \<and> parseDecimal [] = Inl MalformedDecimal"
proof -
  have a: "\<not> decimalGrammar ''abc''" by (simp add: decimal_eval)
  have b: "\<not> decimalGrammar ''1.2.3''" by (simp add: decimal_eval)
  have c: "\<not> decimalGrammar []" by (simp add: decimal_eval)
  show ?thesis
    using a b c parseDecimal_rejects_malformed [OF a] parseDecimal_rejects_malformed [OF b]
      parseDecimal_rejects_malformed [OF c] by simp
qed

section \<open>Properties of the orchestrator\<close>

lemma processBatches_foldl:
  "processBatches env addresses scorerId i st
   = foldl (processAddress env scorerId) st (drop i addresses)"
proof (induction env addresses scorerId i st rule: processBatches.induct)
  case (1 env addresses scorerId i st)
  show ?case
  proof (cases "i < length addresses")
    case True
    have "drop (i + batchSize) addresses = drop batchSize (drop i addresses)"
      by (simp add: add.commute)
    then have "drop i addresses = take batchSize (drop i addresses) @ drop (i + batchSize) addresses"
      by (simp only: append_take_drop_id)
    then have "foldl (processAddress env scorerId) st (drop i addresses)
        = foldl (processAddress env scorerId)
            (foldl (processAddress env scorerId) st (take batchSize (drop i addresses)))
            (drop (i + batchSize) addresses)"
      by (metis foldl_append)
    then show ?thesis using True "1.IH" [OF True] by (subst processBatches.simps) simp
  next
    case False
    then show ?thesis by (subst processBatches.simps) simp
  qed
qed

lemma runAddresses_foldl:
  "runAddresses env addresses scorerId = foldl (processAddress env scorerId) ([], []) addresses"
  unfolding runAddresses_def processBatches_foldl by simp

lemma processAddress_result:
  "\<exists>r. fst (processAddress env scorerId st addr) = fst st @ [r] \<and> result_address r = addr \<and> settled r"
  unfolding processAddress_def requestV2Score_def writeScoreOnchain_def Let_def
  by (auto simp: settled_def failedResult_def truthy_def split: sum.splits option.splits prod.splits)

lemma processAddress_events:
  "\<exists>evs. snd (processAddress env scorerId st addr) = snd st @ ScoreRequested addr # evs \<and>
         requestedAddresses evs = []"
  unfolding processAddress_def requestV2Score_def writeScoreOnchain_def Let_def
  by (auto simp: requestedAddresses_def split: sum.splits option.splits prod.splits)

lemma foldl_results:
  "map result_address (fst (foldl (processAddress env scorerId) st addrs))
     = map result_address (fst st) @ addrs \<and>
   (list_all settled (fst st) \<longrightarrow> list_all settled (fst (foldl (processAddress env scorerId) st addrs))) \<and>
   requestedAddresses (snd (foldl (processAddress env scorerId) st addrs))
     = requestedAddresses (snd st) @ addrs"
proof (induction addrs arbitrary: st)
  case Nil
  show ?case by simp
next
  case (Cons a addrs)
  obtain r where r: "fst (processAddress env scorerId st a) = fst st @ [r]"
      "result_address r = a" "settled r"
    using processAddress_result by blast
  obtain evs where evs: "snd (processAddress env scorerId st a) = snd st @ ScoreRequested a # evs"
      "requestedAddresses evs = []"
    using processAddress_events by blast
  have rq: "requestedAddresses (snd (processAddress env scorerId st a)) = requestedAddresses (snd st) @ [a]"
    using evs by (simp add: requestedAddresses_def)
  show ?case using Cons.IH [of "processAddress env scorerId st a"] r rq by simp
qed

lemma foldl_results_prefix:
  "\<exists>rest. fst (foldl (processAddress env scorerId) st addrs) = fst st @ rest"
proof (induction addrs arbitrary: st)
  case Nil
  show ?case by simp
next
  case (Cons a addrs)
  obtain r where r: "fst (processAddress env scorerId st a) = fst st @ [r]"
    using processAddress_result by blast
  obtain rest where "fst (foldl (processAddress env scorerId) (processAddress env scorerId st a) addrs)
      = fst (processAddress env scorerId st a) @ rest"
    using Cons.IH by blast
  then show ?case using r by simp
qed

text \<open>
  The outcome of index \<open>i\<close> of the whole run is the one the loop body pushes when it
  starts from the state of the run over the first \<open>i\<close> addresses.
\<close>

lemma row_of_step:
  assumes i: "i < length addresses"
  shows "fst (processAddress env scorerId (runAddresses env (take i addresses) scorerId) (addresses ! i))
         = fst (runAddresses env (take i addresses) scorerId) @ [processAddresses env addresses scorerId ! i]"
proof -
  define st where "st = runAddresses env (take i addresses) scorerId"
  define a where "a = addresses ! i"
  have split: "addresses = take i addresses @ a # drop (Suc i) addresses"
    using i by (simp add: a_def id_take_nth_drop)
  have st: "st = foldl (processAddress env scorerId) ([], []) (take i addresses)"
    by (simp only: st_def runAddresses_foldl)
  have "map result_address (fst st) = take i addresses"
    using foldl_results [of env scorerId "([], [])" "take i addresses"] by (simp add: st)
  then have "length (fst st) = length (take i addresses)" by (metis length_map)
  then have len: "length (fst st) = i" using i by simp
  obtain r where r: "fst (processAddress env scorerId st a) = fst st @ [r]"
    using processAddress_result by blast
  have "runAddresses env addresses scorerId
        = foldl (processAddress env scorerId) (processAddress env scorerId st a) (drop (Suc i) addresses)"
    unfolding runAddresses_foldl st by (subst split) (simp only: foldl_append foldl_Cons)
  then obtain rest where "processAddresses env addresses scorerId = (fst st @ [r]) @ rest"
    using foldl_results_prefix [of env scorerId "processAddress env scorerId st a" "drop (Suc i) addresses"] r
    by (auto simp: processAddresses_def)
  then have "processAddresses env addresses scorerId ! i = r"
    using len by (simp add: nth_append)
  then show ?thesis using r by (simp only: st_def a_def)
qed

lemma step_fetch_error:
  assumes "fst (requestV2Score env (snd st) addr scorerId) = Inl e"
  shows "fst (processAddress env scorerId st addr) = fst st @ [failedResult addr e]"
  using assms unfolding processAddress_def requestV2Score_def
  by (simp split: prod.splits sum.splits)

lemma step_encode_error:
  assumes "fst (requestV2Score env (snd st) addr scorerId) = Inr scoreData"
    and "\<not> truthy (error scoreData)"
    and "createAttestationData env addr scoreData scorerId = Inl e"
  shows "fst (processAddress env scorerId st addr) = fst st @ [failedResult addr e]"
  using assms unfolding processAddress_def requestV2Score_def writeScoreOnchain_def
  by (simp split: prod.splits sum.splits)

lemma step_submit_error:
  assumes "fst (requestV2Score env (snd st) addr scorerId) = Inr scoreData"
    and "\<not> truthy (error scoreData)"
    and "createAttestationData env addr scoreData scorerId = Inr attestationData"
    and "submitAttestations env (snd st @ [ScoreRequested addr])
           [\<lparr>schema = SCHEMA_UID env, requests = [attestationData]\<rparr>] = Inl e"
  shows "fst (processAddress env scorerId st addr) = fst st @ [failedResult addr e]"
  using assms unfolding processAddress_def requestV2Score_def writeScoreOnchain_def Let_def
  by (simp split: prod.splits sum.splits)

text \<open>
  Claim C1.  Whatever the scoring service, the encoder and the contract answer or throw,
  \<open>processAddresses\<close> returns one outcome per input address, in the order of the input;
  a score was requested for every address, in that order, so no failure stops the
  addresses after it; and every outcome carries either a transaction hash or an error
  text, never both and never neither.  An error raised for the address of index \<open>i\<close> is
  captured in the outcome of index \<open>i\<close>: when the score request raises \<open>e\<close>, when the
  construction of the attestation data (decimal conversion, encoding) raises \<open>e\<close>, or when
  the submission raises \<open>e\<close>, that outcome is the address with score \<open>"0"\<close>, no
  transaction hash and the message of \<open>e\<close>.
\<close>

theorem processAddresses_one_outcome_each:
  "map result_address (processAddresses env addresses scorerId) = addresses \<and>
   requestedAddresses (processEvents env addresses scorerId) = addresses \<and>
   list_all (\<lambda>r. (txHash r = None) = (result_error r \<noteq> None))
     (processAddresses env addresses scorerId) \<and>
   (\<forall>i<length addresses. \<forall>e.
      fst (requestV2Score env (eventsBefore env addresses scorerId i) (addresses ! i) scorerId)
        = Inl e
      \<longrightarrow> processAddresses env addresses scorerId ! i
            = \<lparr>result_address = addresses ! i, result_score = ''0'', txHash = None,
               result_error = Some (errorMessage e)\<rparr>) \<and>
   (\<forall>i<length addresses. \<forall>scoreData e.
      fst (requestV2Score env (eventsBefore env addresses scorerId i) (addresses ! i) scorerId)
        = Inr scoreData \<and>
      \<not> truthy (error scoreData) \<and>
      createAttestationData env (addresses ! i) scoreData scorerId = Inl e
      \<longrightarrow> processAddresses env addresses scorerId ! i
            = \<lparr>result_address = addresses ! i, result_score = ''0'', txHash = None,
               result_error = Some (errorMessage e)\<rparr>) \<and>
   (\<forall>i<length addresses. \<forall>scoreData attestationData e.
      fst (requestV2Score env (eventsBefore env addresses scorerId i) (addresses ! i) scorerId)
        = Inr scoreData \<and>
      \<not> truthy (error scoreData) \<and>
      createAttestationData env (addresses ! i) scoreData scorerId = Inr attestationData \<and>
      submitAttestations env
        (eventsBefore env addresses scorerId i @ [ScoreRequested (addresses ! i)])
        [\<lparr>schema = SCHEMA_UID env, requests = [attestationData]\<rparr>] = Inl e
      \<longrightarrow> processAddresses env addresses scorerId ! i
            = \<lparr>result_address = addresses ! i, result_score = ''0'', txHash = None,
               result_error = Some (errorMessage e)\<rparr>)"
proof -
  have whole: "map result_address (processAddresses env addresses scorerId) = addresses \<and>
      requestedAddresses (processEvents env addresses scorerId) = addresses \<and>
      list_all (\<lambda>r. (txHash r = None) = (result_error r \<noteq> None))
        (processAddresses env addresses scorerId)"
    using foldl_results [of env scorerId "([], [])" addresses]
    by (simp add: processAddresses_def processEvents_def runAddresses_foldl
        requestedAddresses_def settled_def [abs_def])
  have ev: "eventsBefore env addresses scorerId i = snd (runAddresses env (take i addresses) scorerId)"
    for i by (simp add: eventsBefore_def processEvents_def)
  have row: "processAddresses env addresses scorerId ! i = failedResult (addresses ! i) e"
    if "i < length addresses"
      "fst (processAddress env scorerId (runAddresses env (take i addresses) scorerId) (addresses ! i))
       = fst (runAddresses env (take i addresses) scorerId) @ [failedResult (addresses ! i) e]"
    for i e
    using row_of_step [OF that(1), of env scorerId] that(2) by simp
  have fetch: "\<forall>i<length addresses. \<forall>e.
      fst (requestV2Score env (eventsBefore env addresses scorerId i) (addresses ! i) scorerId)
        = Inl e
      \<longrightarrow> processAddresses env addresses scorerId ! i = failedResult (addresses ! i) e"
    unfolding ev using row step_fetch_error by blast
  have enc: "\<forall>i<length addresses. \<forall>scoreData e.
      fst (requestV2Score env (eventsBefore env addresses scorerId i) (addresses ! i) scorerId)
        = Inr scoreData \<and>
      \<not> truthy (error scoreData) \<and>
      createAttestationData env (addresses ! i) scoreData scorerId = Inl e
      \<longrightarrow> processAddresses env addresses scorerId ! i = failedResult (addresses ! i) e"
    unfolding ev using row step_encode_error by blast
  have sub: "\<forall>i<length addresses. \<forall>scoreData attestationData e.
      fst (requestV2Score env (eventsBefore env addresses scorerId i) (addresses ! i) scorerId)
        = Inr scoreData \<and>
      \<not> truthy (error scoreData) \<and>
      createAttestationData env (addresses ! i) scoreData scorerId = Inr attestationData \<and>
      submitAttestations env
        (eventsBefore env addresses scorerId i @ [ScoreRequested (addresses ! i)])
        [\<lparr>schema = SCHEMA_UID env, requests = [attestationData]\<rparr>] = Inl e
      \<longrightarrow> processAddresses env addresses scorerId ! i = failedResult (addresses ! i) e"
    unfolding ev using row step_submit_error by blast
  show ?thesis
    using whole fetch enc sub unfolding failedResult_def by (intro conjI) blast+
qed

section \<open>Properties of the encoder and of the loop body\<close>

lemma scaleStamps_length: "scaleStamps entries = Inr vs \<Longrightarrow> length vs = length entries"
  by (induction entries arbitrary: vs) (auto split: sum.splits)

text \<open>
  When \<open>createAttestationData\<close> produces a request, no stamp of the record was kept: a
  kept stamp ends the call with an exception.
\<close>

lemma createAttestationData_no_kept_stamp:
  assumes "createAttestationData env addr scoreData scorerId = Inr request"
  shows "filter keepStamp (stamps scoreData) = []"
proof -
  from assms obtain sts where
    sc: "scaleStamps (filter keepStamp (stamps scoreData)) = Inr sts" and "sts = []"
    unfolding createAttestationData_def encodeScoreData_def
    by (auto split: option.splits sum.splits if_splits)
  then show ?thesis using scaleStamps_length [OF sc] by simp
qed

lemma parseDecimal_examples:
  "parseDecimal ''5.6789'' = Inr 56789"
  "parseDecimal ''20.0000'' = Inr 200000"
  unfolding parseDecimal_def parseUnits_def Let_def
  by (simp_all add: isDigit_def digitsValue_def SCORE_DECIMALS_def)

lemma keepStamp_github:
  "keepStamp (''github'', \<lparr>stamp_score = ''5.6789'', dedup = False, expiration_date = None\<rparr>)"
  unfolding keepStamp_def parseFloat_def exponentPart_def Let_def
  by (simp add: isWhiteSpace_def isDigit_def digitsValue_def)

lemma scenario_attestation:
  assumes "dateGetTime env = dateGetTime scenarioEnv" and "toBigInt env = toBigInt scenarioEnv"
    and "abiEncode env = abiEncode scenarioEnv"
    and "stamps response = []"
    and "score response = ''5.6789''" and "threshold response = ''20.0000''"
  shows "createAttestationData env addr response scorerId =
         Inr \<lparr>recipient = addr, expirationTime = 1893456000, revocable = True,
              refUID = ZERO_BYTES32, payload = ''0xPAYLOAD'', transfer = 0\<rparr>"
  unfolding createAttestationData_def encodeScoreData_def
  by (simp add: assms parseDecimal_examples scenarioEnv_def)

text \<open>
  Claim C3 does not hold of the code.  The record of the specification's scenario has one
  stamp, \<open>github\<close> with score \<open>"5.6789"\<close> and \<open>dedup = false\<close>; the filter keeps it, and the
  claim says the payload includes it.  The script hands it to the coder as an object, the
  coder refuses it, and \<open>createAttestationData\<close> ends with that exception: there is no
  payload.  In a run the address is recorded as failed and nothing is submitted.
\<close>

theorem kept_stamp_is_not_encoded:
  "stamps stampedResponse
     = [(''github'', \<lparr>stamp_score = ''5.6789'', dedup = False, expiration_date = None\<rparr>)] \<and>
   filter keepStamp (stamps stampedResponse) = stamps stampedResponse \<and>
   createAttestationData scenarioEnv addressA stampedResponse ''335'' = Inl InvalidArgument \<and>
   runAddresses stampedEnv [addressA] ''335'' =
     ([\<lparr>result_address = addressA, result_score = ''0'', txHash = None,
        result_error = Some ''cannot encode object for signature with missing names''\<rparr>],
      [ScoreRequested addressA])"
proof -
  have st: "stamps stampedResponse
     = [(''github'', \<lparr>stamp_score = ''5.6789'', dedup = False, expiration_date = None\<rparr>)]"
    by (simp add: stampedResponse_def)
  have kept: "filter keepStamp (stamps stampedResponse) = stamps stampedResponse"
    by (simp add: st keepStamp_github)
  have fields: "score stampedResponse = ''5.6789''" "threshold stampedResponse = ''20.0000''"
      "error stampedResponse = None"
    by (simp_all add: stampedResponse_def scenarioResponse_def)
  have sc: "scaleStamps (stamps stampedResponse) = Inr [(''github'', 56789)]"
    by (simp add: st parseDecimal_examples)
  have at: "createAttestationData env addr stampedResponse scorerId = Inl InvalidArgument"
    if "dateGetTime env = dateGetTime scenarioEnv" "toBigInt env = toBigInt scenarioEnv"
    for env addr scorerId
    unfolding createAttestationData_def encodeScoreData_def kept sc
    by (simp add: that fields parseDecimal_examples scenarioEnv_def)
  have at1: "createAttestationData scenarioEnv addressA stampedResponse ''335'' = Inl InvalidArgument"
    by (rule at) simp_all
  have at2: "createAttestationData stampedEnv addressA stampedResponse ''335'' = Inl InvalidArgument"
    by (rule at) (simp_all add: stampedEnv_def)
  have rq: "requestV2Score stampedEnv [] addressA ''335''
            = (Inr stampedResponse, [ScoreRequested addressA])"
    by (simp add: requestV2Score_def stampedEnv_def)
  have "processAddress stampedEnv ''335'' ([], []) addressA =
     ([\<lparr>result_address = addressA, result_score = ''0'', txHash = None,
        result_error = Some ''cannot encode object for signature with missing names''\<rparr>],
      [ScoreRequested addressA])"
    by (simp add: processAddress_def rq writeScoreOnchain_def at2 truthy_def fields failedResult_def)
  then have run: "runAddresses stampedEnv [addressA] ''335'' =
     ([\<lparr>result_address = addressA, result_score = ''0'', txHash = None,
        result_error = Some ''cannot encode object for signature with missing names''\<rparr>],
      [ScoreRequested addressA])"
    unfolding runAddresses_foldl by simp
  show ?thesis using st kept at1 run by simp
qed

text \<open>
  Claim C2, as amended.  When the response of the scoring service carries a non-empty
  \<open>error\<close> text, the loop body records the outcome with score \<open>"0"\<close>, that text and no
  transaction hash, and the only event of the step is the score request: nothing is
  submitted to the contract.
\<close>

theorem reported_error_zero_score:
  assumes "fst (requestV2Score env trace addr scorerId) = Inr scoreData"
    and "error scoreData = Some text" and "text \<noteq> []"
  shows "processAddress env scorerId (results, trace) addr =
         (results @ [\<lparr>result_address = addr, result_score = ''0'', txHash = None,
                      result_error = Some text\<rparr>],
          trace @ [ScoreRequested addr])"
  using assms unfolding processAddress_def requestV2Score_def
  by (simp add: truthy_def)

text \<open>
  The service that reports \<open>"rate limited"\<close>.
\<close>

theorem reported_error_zero_score_witness:
  "fst (requestV2Score rateLimitedEnv [] addressA ''335'')
     = Inr (scenarioResponse\<lparr>error := Some ''rate limited''\<rparr>) \<and>
   processAddress rateLimitedEnv ''335'' ([], []) addressA =
     ([\<lparr>result_address = addressA, result_score = ''0'', txHash = None,
        result_error = Some ''rate limited''\<rparr>],
      [ScoreRequested addressA])"
proof -
  have f: "fst (requestV2Score rateLimitedEnv [] addressA ''335'')
            = Inr (scenarioResponse\<lparr>error := Some ''rate limited''\<rparr>)"
    by (simp add: requestV2Score_def rateLimitedEnv_def)
  show ?thesis
    using f reported_error_zero_score [OF f, of "''rate limited''" "[]"] by simp
qed

lemma scenarioEnv_fields:
  "SCHEMA_UID scenarioEnv = ''0xSCHEMA''"
  "submitAttestations scenarioEnv trace (attestationFor addr) =
     (if addr = addressA then Inr ''0xTX1'' else Inl (Thrown ''nonce too low''))"
  "fst (requestV2Score scenarioEnv trace addr scorerId) = Inr scenarioResponse"
  "snd (requestV2Score env trace addr scorerId) = trace @ [ScoreRequested addr]"
  by (simp_all add: scenarioEnv_def attestationFor_def requestV2Score_def)

lemma scenarioResponse_fields:
  "error scenarioResponse = None"
  "score scenarioResponse = ''5.6789''"
  by (simp_all add: scenarioResponse_def)

lemma scenario_write:
  "writeScoreOnchain scenarioEnv trace addr scenarioResponse scorerId =
     (if addr = addressA then Inr ''0xTX1'' else Inl (Thrown ''nonce too low''),
      trace @ [Submitted (attestationFor addr)])"
proof -
  have at: "createAttestationData scenarioEnv addr scenarioResponse scorerId =
         Inr \<lparr>recipient = addr, expirationTime = 1893456000, revocable = True,
              refUID = ZERO_BYTES32, payload = ''0xPAYLOAD'', transfer = 0\<rparr>"
    by (rule scenario_attestation) (simp_all add: scenarioResponse_def)
  show ?thesis
    unfolding writeScoreOnchain_def Let_def at
    by (simp add: scenarioEnv_fields(1) scenarioEnv_fields(2) [unfolded attestationFor_def]
        attestationFor_def)
qed

lemma scenario_first:
  "processAddress scenarioEnv scorerId (results, trace) addressA =
     (results @ [\<lparr>result_address = addressA, result_score = ''5.6789'', txHash = Some ''0xTX1'',
                  result_error = None\<rparr>],
      trace @ [ScoreRequested addressA, Submitted (attestationFor addressA), Slept 1000])"
proof -
  have rq: "requestV2Score scenarioEnv trace addressA scorerId
            = (Inr scenarioResponse, trace @ [ScoreRequested addressA])"
    by (simp add: requestV2Score_def scenarioEnv_def)
  show ?thesis
    by (simp add: processAddress_def rq scenario_write truthy_def scenarioResponse_fields)
qed

lemma scenario_second:
  "processAddress scenarioEnv scorerId (results, trace) addressB =
     (results @ [\<lparr>result_address = addressB, result_score = ''0'', txHash = None,
                  result_error = Some ''nonce too low''\<rparr>],
      trace @ [ScoreRequested addressB, Submitted (attestationFor addressB)])"
proof -
  have rq: "requestV2Score scenarioEnv trace addressB scorerId
            = (Inr scenarioResponse, trace @ [ScoreRequested addressB])"
    by (simp add: requestV2Score_def scenarioEnv_def)
  have ne: "addressB \<noteq> addressA" by (simp add: addressA_def addressB_def)
  show ?thesis
    by (simp add: processAddress_def rq scenario_write truthy_def scenarioResponse_fields ne
        failedResult_def)
qed

lemma scenario_run:
  "runAddresses scenarioEnv [addressA, addressB] scorerId =
     ([\<lparr>result_address = addressA, result_score = ''5.6789'', txHash = Some ''0xTX1'',
        result_error = None\<rparr>,
       \<lparr>result_address = addressB, result_score = ''0'', txHash = None,
        result_error = Some ''nonce too low''\<rparr>],
      [ScoreRequested addressA, Submitted (attestationFor addressA), Slept 1000,
       ScoreRequested addressB, Submitted (attestationFor addressB)])"
  unfolding runAddresses_foldl by (simp add: scenario_first scenario_second)

text \<open>
  Claim C5 as stated fails: in the end-to-end scenario the row of the second address
  reports the score \<open>"0"\<close>, not the fetched \<open>"5.6789"\<close>.
\<close>

theorem failed_submission_keeps_fetched_score_counterexample:
  "result_score (processAddresses scenarioEnv [addressA, addressB] ''335'' ! 1) = ''0'' \<and>
   result_score (processAddresses scenarioEnv [addressA, addressB] ''335'' ! 1) \<noteq> ''5.6789''"
  by (simp add: processAddresses_def scenario_run)

text \<open>
  Claim C5, as amended.  When the score was fetched without a reported error and
  \<open>writeScoreOnchain\<close> (encoding and submission) fails, the recorded outcome reports the
  score \<open>"0"\<close>, the message of the failure and no transaction hash.
\<close>

theorem failed_write_reports_zero:
  assumes "fst (requestV2Score env trace addr scorerId) = Inr scoreData"
    and "\<not> truthy (error scoreData)"
    and "fst (writeScoreOnchain env (trace @ [ScoreRequested addr]) addr scoreData scorerId) = Inl e"
  shows "fst (processAddress env scorerId (results, trace) addr) =
         results @ [\<lparr>result_address = addr, result_score = ''0'', txHash = None,
                     result_error = Some (errorMessage e)\<rparr>]"
  using assms unfolding processAddress_def requestV2Score_def
  by (auto simp: failedResult_def split: prod.splits sum.splits)

text \<open>
  The second address of the end-to-end scenario: score \<open>"5.6789"\<close> fetched, submission
  refused with \<open>"nonce too low"\<close>.
\<close>

theorem failed_write_reports_zero_witness:
  "score scenarioResponse = ''5.6789'' \<and>
   fst (requestV2Score scenarioEnv [] addressB ''335'') = Inr scenarioResponse \<and>
   \<not> truthy (error scenarioResponse) \<and>
   fst (writeScoreOnchain scenarioEnv [ScoreRequested addressB] addressB scenarioResponse ''335'')
     = Inl (Thrown ''nonce too low'') \<and>
   fst (processAddress scenarioEnv ''335'' ([], []) addressB) =
     [\<lparr>result_address = addressB, result_score = ''0'', txHash = None,
       result_error = Some ''nonce too low''\<rparr>]"
proof -
  have a: "fst (requestV2Score scenarioEnv [] addressB ''335'') = Inr scenarioResponse"
    by (rule scenarioEnv_fields(3))
  have b: "\<not> truthy (error scenarioResponse)" by (simp add: truthy_def scenarioResponse_def)
  have ne: "addressB \<noteq> addressA" by (simp add: addressA_def addressB_def)
  have c: "fst (writeScoreOnchain scenarioEnv ([] @ [ScoreRequested addressB]) addressB scenarioResponse ''335'')
           = Inl (Thrown ''nonce too low'')"
    by (simp add: scenario_write ne)
  have d: "score scenarioResponse = ''5.6789''" by (simp add: scenarioResponse_def)
  show ?thesis
    using a b c d failed_write_reports_zero [OF a b c, of "[]"] by simp
qed

lemma rateLimited_step:
  "processAddress rateLimitedEnv scorerId (results, trace) addr =
     (results @ [\<lparr>result_address = addr, result_score = ''0'', txHash = None,
                  result_error = Some ''rate limited''\<rparr>],
      trace @ [ScoreRequested addr])"
  unfolding processAddress_def requestV2Score_def
  by (simp add: rateLimitedEnv_def truthy_def)

text \<open>
  Claim C8 does not hold of the code.  When the service reports an error for both
  addresses, the second score is requested right after the first, without a pause; the
  one-second pause only follows a successful submission, as the end-to-end scenario
  shows for its first address.
\<close>

theorem no_pause_after_reported_error:
  "processEvents rateLimitedEnv [addressA, addressB] ''335''
     = [ScoreRequested addressA, ScoreRequested addressB] \<and>
   processEvents scenarioEnv [addressA, addressB] ''335''
     = [ScoreRequested addressA, Submitted (attestationFor addressA), Slept 1000,
        ScoreRequested addressB, Submitted (attestationFor addressB)]"
proof -
  have "snd (runAddresses rateLimitedEnv [addressA, addressB] ''335'')
        = [ScoreRequested addressA, ScoreRequested addressB]"
    unfolding runAddresses_foldl by (simp add: rateLimited_step)
  then show ?thesis by (simp add: processEvents_def scenario_run)
qed

lemma emptyError_step:
  "processAddress emptyErrorEnv scorerId (results, trace) addressA =
     (results @ [\<lparr>result_address = addressA, result_score = ''5.6789'', txHash = Some ''0xTX1'',
                  result_error = None\<rparr>],
      trace @ [ScoreRequested addressA, Submitted (attestationFor addressA), Slept 1000])"
proof -
  define response where "response = scenarioResponse\<lparr>error := Some []\<rparr>"
  have rq: "requestV2Score emptyErrorEnv trace addressA scorerId
            = (Inr response, trace @ [ScoreRequested addressA])"
    by (simp add: requestV2Score_def emptyErrorEnv_def response_def)
  have at: "createAttestationData emptyErrorEnv addressA response scorerId =
         Inr \<lparr>recipient = addressA, expirationTime = 1893456000, revocable = True,
              refUID = ZERO_BYTES32, payload = ''0xPAYLOAD'', transfer = 0\<rparr>"
    by (rule scenario_attestation)
       (simp_all add: emptyErrorEnv_def response_def scenarioResponse_def)
  have fields: "error response = Some []" "score response = ''5.6789''"
    by (simp_all add: response_def scenarioResponse_def)
  have sub: "submitAttestations emptyErrorEnv tr (attestationFor addressA) = Inr ''0xTX1''"
      "SCHEMA_UID emptyErrorEnv = ''0xSCHEMA''" for tr
    by (simp_all add: emptyErrorEnv_def scenarioEnv_def attestationFor_def)
  show ?thesis
    by (simp add: processAddress_def rq writeScoreOnchain_def at Let_def truthy_def fields
        sub [unfolded attestationFor_def] attestationFor_def)
qed

text \<open>
  Claim C2 as stated fails: a response whose \<open>error\<close> field is present but empty is
  processed like a response without error.  For a record without stamps the encoder
  succeeds, and the attestation is submitted.
\<close>

theorem empty_error_field_counterexample:
  "error (scenarioResponse\<lparr>error := Some []\<rparr>) = Some [] \<and>
   stamps (scenarioResponse\<lparr>error := Some []\<rparr>) = [] \<and>
   fst (requestV2Score emptyErrorEnv [] addressA ''335'') = Inr (scenarioResponse\<lparr>error := Some []\<rparr>) \<and>
   processAddress emptyErrorEnv ''335'' ([], []) addressA =
     ([\<lparr>result_address = addressA, result_score = ''5.6789'', txHash = Some ''0xTX1'',
        result_error = None\<rparr>],
      [ScoreRequested addressA, Submitted (attestationFor addressA), Slept 1000])"
proof -
  have "stamps (scenarioResponse\<lparr>error := Some []\<rparr>) = []"
    by (simp add: scenarioResponse_def)
  moreover have "fst (requestV2Score emptyErrorEnv [] addressA ''335'')
      = Inr (scenarioResponse\<lparr>error := Some []\<rparr>)"
    by (simp add: requestV2Score_def emptyErrorEnv_def)
  ultimately show ?thesis
    using emptyError_step [of "''335''" "[]" "[]"] by simp
qed

text \<open>
  The end-to-end scenario: two addresses in, two outcomes out, in order.  The second
  address, of index 1, is refused by the contract with \<open>"nonce too low"\<close>, and its
  outcome carries that message.
\<close>

theorem processAddresses_one_outcome_each_witness:
  "map result_address (processAddresses scenarioEnv [addressA, addressB] ''335'')
     = [addressA, addressB] \<and>
   requestedAddresses (processEvents scenarioEnv [addressA, addressB] ''335'')
     = [addressA, addressB] \<and>
   (1::nat) < length [addressA, addressB] \<and>
   fst (requestV2Score scenarioEnv (eventsBefore scenarioEnv [addressA, addressB] ''335'' 1)
          ([addressA, addressB] ! 1) ''335'') = Inr scenarioResponse \<and>
   \<not> truthy (error scenarioResponse) \<and>
   createAttestationData scenarioEnv ([addressA, addressB] ! 1) scenarioResponse ''335''
     = Inr \<lparr>recipient = addressB, expirationTime = 1893456000, revocable = True,
            refUID = ZERO_BYTES32, payload = ''0xPAYLOAD'', transfer = 0\<rparr> \<and>
   submitAttestations scenarioEnv
     (eventsBefore scenarioEnv [addressA, addressB] ''335'' 1
        @ [ScoreRequested ([addressA, addressB] ! 1)])
     [\<lparr>schema = SCHEMA_UID scenarioEnv,
       requests = [\<lparr>recipient = addressB, expirationTime = 1893456000, revocable = True,
                    refUID = ZERO_BYTES32, payload = ''0xPAYLOAD'', transfer = 0\<rparr>]\<rparr>]
     = Inl (Thrown ''nonce too low'') \<and>
   processAddresses scenarioEnv [addressA, addressB] ''335'' ! 1
     = \<lparr>result_address = addressB, result_score = ''0'', txHash = None,
        result_error = Some ''nonce too low''\<rparr>"
proof -
  note T = processAddresses_one_outcome_each [of scenarioEnv "[addressA, addressB]" "''335''"]
  note S = T [THEN conjunct2, THEN conjunct2, THEN conjunct2, THEN conjunct2, THEN conjunct2,
      rule_format]
  have ne: "addressB \<noteq> addressA" by (simp add: addressA_def addressB_def)
  have h0: "(1::nat) < length [addressA, addressB]" by simp
  have h1: "fst (requestV2Score scenarioEnv (eventsBefore scenarioEnv [addressA, addressB] ''335'' 1)
          ([addressA, addressB] ! 1) ''335'') = Inr scenarioResponse"
    by (rule scenarioEnv_fields(3))
  have h2: "\<not> truthy (error scenarioResponse)"
    by (simp add: truthy_def scenarioResponse_fields)
  have h3: "createAttestationData scenarioEnv ([addressA, addressB] ! 1) scenarioResponse ''335''
     = Inr \<lparr>recipient = addressB, expirationTime = 1893456000, revocable = True,
            refUID = ZERO_BYTES32, payload = ''0xPAYLOAD'', transfer = 0\<rparr>"
    using scenario_attestation [of scenarioEnv scenarioResponse addressB "''335''"]
    by (simp add: scenarioResponse_def)
  have h4: "submitAttestations scenarioEnv
     (eventsBefore scenarioEnv [addressA, addressB] ''335'' 1
        @ [ScoreRequested ([addressA, addressB] ! 1)])
     [\<lparr>schema = SCHEMA_UID scenarioEnv,
       requests = [\<lparr>recipient = addressB, expirationTime = 1893456000, revocable = True,
                    refUID = ZERO_BYTES32, payload = ''0xPAYLOAD'', transfer = 0\<rparr>]\<rparr>]
     = Inl (Thrown ''nonce too low'')"
    using ne by (simp add: scenarioEnv_def)
  have row: "processAddresses scenarioEnv [addressA, addressB] ''335'' ! 1
     = \<lparr>result_address = [addressA, addressB] ! 1, result_score = ''0'', txHash = None,
        result_error = Some (errorMessage (Thrown ''nonce too low''))\<rparr>"
    by (rule S [OF h0 conjI [OF h1 conjI [OF h2 conjI [OF h3 h4]]]])
  have whole: "map result_address (processAddresses scenarioEnv [addressA, addressB] ''335'')
       = [addressA, addressB]"
      "requestedAddresses (processEvents scenarioEnv [addressA, addressB] ''335'')
       = [addressA, addressB]"
    using T by blast+
  show ?thesis using whole h0 h1 h2 h3 h4 row by simp
qed

end
